theory Spec2Isabelle
  imports Main "HOL-Library.Char_ord" "HOL-Library.List_Lexorder" "HOL-Library.Sublist"
    "HOL-Library.Multiset"
begin

section \<open>Values\<close>

text \<open>
  What \<open>r.json()\<close> hands to the program: Python values built from a JSON text. A JSON
  object is a Python dict, kept here as an association list in which the first binding of
  a key is the one the dict holds. Numbers with a fraction or an exponent (Python floats)
  are not represented. A string is the list of its characters, and a character is a code
  point below 256: text with other characters is outside this model.
\<close>

datatype json =
    JNull
  | JBool bool
  | JNum int
  | JStr string
  | JArr "json list"
  | JObj "(string \<times> json) list"

text \<open>
  The exceptions the two handlers can see. \<open>RequestException\<close> (no connection, timeout)
  and \<open>DatabaseError\<close> (the driver failing to connect) carry the text the library puts
  into the exception (\<open>str(e)\<close>); \<open>KeyError\<close> carries the missing key and \<open>HTTPError\<close>
  the status. \<open>ProgrammingError\<close> is the driver refusing a parameter it cannot adapt,
  \<open>DataError\<close> is Postgres refusing a value outside the column's range, and
  \<open>IntegrityError\<close> is the violation of \<open>issue TEXT PRIMARY KEY\<close>, with the issue.
\<close>

datatype exn =
    KeyError string
  | TypeError
  | ValueError
  | AttributeError
  | OverflowError
  | RequestException string
  | HTTPError nat
  | JSONDecodeError
  | IntegrityError string
  | DataError
  | ProgrammingError
  | DatabaseError string

subsection \<open>Python's \<open>str\<close> and \<open>int\<close>\<close>

text \<open>The digit characters, for arguments below 10 (below 16 for \<open>hex_char\<close>), which are
  the only ones they are given.\<close>

definition digit_char :: "nat \<Rightarrow> char" where
  "digit_char d = ''0123456789'' ! d"

fun str_nat :: "nat \<Rightarrow> string" where
  "str_nat n = (if n < 10 then [digit_char n] else str_nat (n div 10) @ [digit_char (n mod 10)])"

declare str_nat.simps [simp del]

definition str_int :: "int \<Rightarrow> string" where
  "str_int i = (if i < 0 then CHR ''-'' # str_nat (nat (- i)) else str_nat (nat i))"

definition hex_char :: "nat \<Rightarrow> char" where
  "hex_char d = ''0123456789abcdef'' ! d"

text \<open>
  \<open>repr\<close> of a string: single quotes, unless the string has a single quote and no double
  quote; the quote and the backslash are escaped, tab, newline and carriage return are
  written \<open>\t\<close>, \<open>\n\<close>, \<open>\r\<close>, and every other character that is not printable as
  \<open>\xhh\<close>: the control characters below 32 and from 127 to 159, the no-break space 160
  and the soft hyphen 173.
\<close>

definition repr_char :: "char \<Rightarrow> char \<Rightarrow> string" where
  "repr_char q c =
     (if c = q \<or> c = CHR 0x5C then [CHR 0x5C, c]
      else if c = CHR 0x09 then [CHR 0x5C, CHR ''t'']
      else if c = CHR 0x0A then [CHR 0x5C, CHR ''n'']
      else if c = CHR 0x0D then [CHR 0x5C, CHR ''r'']
      else if of_char c < (32::nat) \<or> (127 \<le> (of_char c :: nat) \<and> (of_char c :: nat) \<le> 160)
              \<or> c = CHR 0xAD
        then [CHR 0x5C, CHR ''x'', hex_char (of_char c div 16), hex_char (of_char c mod 16)]
      else [c])"

definition repr_str :: "string \<Rightarrow> string" where
  "repr_str s =
     (let q = (if CHR 0x27 \<in> set s \<and> CHR 0x22 \<notin> set s then CHR 0x22 else CHR 0x27)
      in q # concat (map (repr_char q) s) @ [q])"

fun join :: "string \<Rightarrow> string list \<Rightarrow> string" where
  "join sep [] = []"
| "join sep [x] = x"
| "join sep (x # y # ys) = x @ sep @ join sep (y # ys)"

fun repr :: "json \<Rightarrow> string" where
  "repr JNull = ''None''"
| "repr (JBool b) = (if b then ''True'' else ''False'')"
| "repr (JNum n) = str_int n"
| "repr (JStr s) = repr_str s"
| "repr (JArr xs) = ''['' @ join '', '' (map repr xs) @ '']''"
| "repr (JObj kvs) = ''{'' @ join '', '' (map (\<lambda>(k, v). repr_str k @ '': '' @ repr v) kvs) @ ''}''"

definition py_str :: "json \<Rightarrow> string" where
  "py_str v = (case v of JStr s \<Rightarrow> s | _ \<Rightarrow> repr v)"

text \<open>
  \<open>int(s)\<close> for a string: surrounding whitespace is dropped, one sign is allowed, then
  decimal digits, where a single underscore may stand between two digits. More than 4300
  digits are refused (the interpreter's default limit for the conversion). Whitespace is
  tab, line feed, vertical tab, form feed, carriage return and space, and of the characters
  above 127 the next-line character 133 and the no-break space 160; the only decimal
  digits below 256 are \<open>0\<close> to \<open>9\<close>.
\<close>

definition is_space :: "char \<Rightarrow> bool" where
  "is_space c = (c \<in> set [CHR 0x09, CHR 0x0A, CHR 0x0B, CHR 0x0C, CHR 0x0D, CHR 0x20,
                             CHR 0x85, CHR 0xA0])"

definition is_digit :: "char \<Rightarrow> bool" where
  "is_digit c = (48 \<le> (of_char c :: nat) \<and> (of_char c :: nat) \<le> 57)"

definition digit_val :: "char \<Rightarrow> nat" where
  "digit_val c = of_char c - 48"

definition strip :: "string \<Rightarrow> string" where
  "strip s = rev (dropWhile is_space (rev (dropWhile is_space s)))"

fun parse_digits :: "nat \<Rightarrow> string \<Rightarrow> nat option" where
  "parse_digits acc [] = Some acc"
| "parse_digits acc [c] = (if is_digit c then Some (10 * acc + digit_val c) else None)"
| "parse_digits acc (c # d # ds) =
     (if is_digit c then parse_digits (10 * acc + digit_val c) (d # ds)
      else if c = CHR ''_'' \<and> is_digit d then parse_digits (10 * acc + digit_val d) ds
      else None)"

definition max_str_digits :: nat where
  "max_str_digits = 4300"

definition int_of_str :: "string \<Rightarrow> exn + int" where
  "int_of_str s =
     (let t = strip s;
          neg = (case t of c # _ \<Rightarrow> c = CHR ''-'' | [] \<Rightarrow> False);
          body = (case t of c # cs \<Rightarrow> if c = CHR ''-'' \<or> c = CHR ''+'' then cs else t | [] \<Rightarrow> [])
      in case body of
           [] \<Rightarrow> Inl ValueError
         | c # cs \<Rightarrow>
             if \<not> is_digit c then Inl ValueError
             else (case parse_digits (digit_val c) cs of
                     None \<Rightarrow> Inl ValueError
                   | Some n \<Rightarrow>
                       if max_str_digits < length (filter is_digit body) then Inl ValueError
                       else Inr (if neg then - int n else int n)))"

fun py_int :: "json \<Rightarrow> exn + int" where
  "py_int (JNum n) = Inr n"
| "py_int (JBool b) = Inr (if b then 1 else 0)"
| "py_int (JStr s) = int_of_str s"
| "py_int JNull = Inl TypeError"
| "py_int (JArr xs) = Inl TypeError"
| "py_int (JObj kvs) = Inl TypeError"

subsection \<open>Dictionary access and iteration\<close>

text \<open>\<open>d.get(k, default)\<close>: only a dict has the method.\<close>

fun py_get :: "json \<Rightarrow> string \<Rightarrow> json \<Rightarrow> exn + json" where
  "py_get (JObj kvs) k d = Inr (case map_of kvs k of None \<Rightarrow> d | Some v \<Rightarrow> v)"
| "py_get JNull k d = Inl AttributeError"
| "py_get (JBool b) k d = Inl AttributeError"
| "py_get (JNum n) k d = Inl AttributeError"
| "py_get (JStr s) k d = Inl AttributeError"
| "py_get (JArr xs) k d = Inl AttributeError"

text \<open>\<open>item[k]\<close> with a string key: a missing key of a dict is a KeyError, and nothing but
  a dict can be indexed by a string.\<close>

fun py_getitem :: "json \<Rightarrow> string \<Rightarrow> exn + json" where
  "py_getitem (JObj kvs) k = (case map_of kvs k of None \<Rightarrow> Inl (KeyError k) | Some v \<Rightarrow> Inr v)"
| "py_getitem JNull k = Inl TypeError"
| "py_getitem (JBool b) k = Inl TypeError"
| "py_getitem (JNum n) k = Inl TypeError"
| "py_getitem (JStr s) k = Inl TypeError"
| "py_getitem (JArr xs) k = Inl TypeError"

text \<open>\<open>for item in data\<close>: a list yields its elements, a dict its keys, a string its
  characters; nothing else can be iterated.\<close>

fun py_iter :: "json \<Rightarrow> exn + json list" where
  "py_iter (JArr xs) = Inr xs"
| "py_iter (JObj kvs) = Inr (map (\<lambda>kv. JStr (fst kv)) kvs)"
| "py_iter (JStr s) = Inr (map (\<lambda>c. JStr [c]) s)"
| "py_iter JNull = Inl TypeError"
| "py_iter (JBool b) = Inl TypeError"
| "py_iter (JNum n) = Inl TypeError"

section \<open>The store\<close>

text \<open>
  The table \<open>history\<close> of \<open>init_db\<close>: \<open>issue TEXT PRIMARY KEY, code INTEGER,
  open_time TEXT\<close>, as the list of its committed rows in insertion order. The column
  \<open>created_at\<close> is filled by the database clock and read by no query; it is left out.
  The table is taken to exist (\<open>init_db\<close> has run).
\<close>

record row =
  issue :: string
  code :: int
  open_time :: "string option"

type_synonym store = "row list"

text \<open>\<open>if DATABASE_URL:\<close> chooses Postgres; an unset or empty variable chooses SQLite.\<close>

definition use_postgres :: "string option \<Rightarrow> bool" where
  "use_postgres url = (case url of None \<Rightarrow> False | Some u \<Rightarrow> u \<noteq> [])"

text \<open>
  \<open>get_db_connection\<close>: the driver's \<open>connect\<close> either returns a connection or raises;
  the second argument is the text of the exception it raises, if any.
\<close>

definition get_db_connection :: "string option \<Rightarrow> string option \<Rightarrow> exn + unit" where
  "get_db_connection url fault =
     (case fault of Some msg \<Rightarrow> Inl (DatabaseError msg) | None \<Rightarrow> Inr ())"

text \<open>
  A cycle works in one transaction: \<open>base\<close> is what is committed (by anyone), \<open>own\<close> the
  rows this connection has inserted and not yet committed. Its statements see both.
\<close>

record txn =
  base :: store
  own :: "row list"

definition visible :: "txn \<Rightarrow> row list" where
  "visible tx = base tx @ own tx"

text \<open>
  Binding the parameters. An \<open>issue\<close> is always a Python string; psycopg2 refuses a string
  with a NUL character. \<open>code\<close> is a Python int: SQLite holds 64-bit integers and the
  driver raises OverflowError beyond them, Postgres' INTEGER is 32-bit. \<open>open_time\<close> is
  whatever the item held: a string is stored as it is, null as NULL, a number or a boolean
  is turned into text by the TEXT column; a dict cannot be adapted by either driver. A list
  is refused by the SQLite driver. psycopg2 sends a list as an SQL array, and Postgres
  stores the array's text form in the TEXT column or refuses the statement; that
  conversion is Postgres' own and is the parameter \<open>arr\<close> of the functions below.
\<close>

definition bind_issue :: "string option \<Rightarrow> string \<Rightarrow> exn + string" where
  "bind_issue url i = (if use_postgres url \<and> CHR 0x00 \<in> set i then Inl ValueError else Inr i)"

definition bind_code :: "string option \<Rightarrow> int \<Rightarrow> exn + int" where
  "bind_code url c =
     (if use_postgres url
      then (if - (2 ^ 31) \<le> c \<and> c < 2 ^ 31 then Inr c else Inl DataError)
      else (if - (2 ^ 63) \<le> c \<and> c < 2 ^ 63 then Inr c else Inl OverflowError))"

fun bind_open_time :: "(json list \<Rightarrow> exn + string) \<Rightarrow> string option \<Rightarrow> json \<Rightarrow> exn + string option" where
  "bind_open_time arr url JNull = Inr None"
| "bind_open_time arr url (JStr s) =
     (if use_postgres url \<and> CHR 0x00 \<in> set s then Inl ValueError else Inr (Some s))"
| "bind_open_time arr url (JNum n) =
     (if use_postgres url \<or> (- (2 ^ 63) \<le> n \<and> n < 2 ^ 63) then Inr (Some (str_int n))
      else Inl OverflowError)"
| "bind_open_time arr url (JBool b) =
     Inr (Some (if use_postgres url then (if b then ''true'' else ''false'')
                else (if b then ''1'' else ''0'')))"
| "bind_open_time arr url (JArr xs) =
     (if use_postgres url then (case arr xs of Inl e \<Rightarrow> Inl e | Inr s \<Rightarrow> Inr (Some s))
      else Inl ProgrammingError)"
| "bind_open_time arr url (JObj kvs) = Inl ProgrammingError"

text \<open>\<open>SELECT issue FROM history WHERE issue = ?\<close> followed by \<open>cur.fetchone()\<close>: is there
  a row with this issue?\<close>

definition select_issue :: "string option \<Rightarrow> txn \<Rightarrow> string \<Rightarrow> exn + bool" where
  "select_issue url tx i =
     (case bind_issue url i of
        Inl e \<Rightarrow> Inl e
      | Inr k \<Rightarrow> Inr (k \<in> set (map issue (visible tx))))"

text \<open>\<open>INSERT INTO history (issue, code, open_time) VALUES (?, ?, ?)\<close>: the primary key
  refuses a second row with the same issue.\<close>

definition insert_row :: "(json list \<Rightarrow> exn + string) \<Rightarrow> string option \<Rightarrow> txn \<Rightarrow> string \<Rightarrow> int \<Rightarrow> json \<Rightarrow> exn + txn" where
  "insert_row arr url tx i c t =
     (case bind_issue url i of
        Inl e \<Rightarrow> Inl e
      | Inr k \<Rightarrow>
     (case bind_code url c of
        Inl e \<Rightarrow> Inl e
      | Inr c' \<Rightarrow>
     (case bind_open_time arr url t of
        Inl e \<Rightarrow> Inl e
      | Inr t' \<Rightarrow>
          if k \<in> set (map issue (visible tx)) then Inl (IntegrityError k)
          else Inr (tx\<lparr>own := own tx @ [\<lparr>issue = k, code = c', open_time = t'\<rparr>]\<rparr>))))"

text \<open>
  Other writers. While a cycle runs, another connection may commit rows of its own; the
  primary key holds for it too, so a row whose issue is already there is not added.
\<close>

fun others_commit :: "txn \<Rightarrow> row list \<Rightarrow> txn" where
  "others_commit tx [] = tx"
| "others_commit tx (r # rs) =
     others_commit (if issue r \<in> set (map issue (visible tx)) then tx
                    else tx\<lparr>base := base tx @ [r]\<rparr>) rs"

text \<open>
  When they can. Postgres lets another connection commit between any two statements of the
  cycle. On SQLite the cycle's first INSERT opens its transaction and takes the write lock,
  which it keeps until the connection is closed: another writer commits only while the
  cycle has inserted nothing yet.
\<close>

definition meanwhile :: "string option \<Rightarrow> txn \<Rightarrow> row list \<Rightarrow> txn" where
  "meanwhile url tx w = (if use_postgres url \<or> own tx = [] then others_commit tx w else tx)"

section \<open>The worker: \<open>fetch_job\<close>\<close>

text \<open>
  What the upstream does in one cycle: \<open>requests.get\<close> raises (no connection, timeout),
  or there is a reply with a status and a body; the body is \<open>None\<close> when it is not JSON.
\<close>

datatype upstream =
    RequestFailed string
  | Reply nat "json option"

definition requests_get :: "upstream \<Rightarrow> exn + nat \<times> json option" where
  "requests_get up =
     (case up of RequestFailed msg \<Rightarrow> Inl (RequestException msg) | Reply s b \<Rightarrow> Inr (s, b))"

text \<open>\<open>r.raise_for_status()\<close> raises for the statuses 400 to 599 and for no other.\<close>

definition raise_for_status :: "nat \<Rightarrow> exn + unit" where
  "raise_for_status s = (if 400 \<le> s \<and> s < 600 then Inl (HTTPError s) else Inr ())"

definition response_json :: "json option \<Rightarrow> exn + json" where
  "response_json b = (case b of None \<Rightarrow> Inl JSONDecodeError | Some j \<Rightarrow> Inr j)"

text \<open>\<open>data = r.json().get('data', {}).get('list', [])\<close>, after the request and the
  status check.\<close>

definition upstream_data :: "upstream \<Rightarrow> exn + json" where
  "upstream_data up =
     (case requests_get up of
        Inl e \<Rightarrow> Inl e
      | Inr (s, b) \<Rightarrow>
     (case raise_for_status s of
        Inl e \<Rightarrow> Inl e
      | Inr _ \<Rightarrow>
     (case response_json b of
        Inl e \<Rightarrow> Inl e
      | Inr j \<Rightarrow>
     (case py_get j ''data'' (JObj []) of
        Inl e \<Rightarrow> Inl e
      | Inr d \<Rightarrow> py_get d ''list'' (JArr [])))))"

text \<open>The three assignments at the head of the loop body.\<close>

definition item_fields :: "json \<Rightarrow> exn + string \<times> int \<times> json" where
  "item_fields item =
     (case py_getitem item ''issueNumber'' of
        Inl e \<Rightarrow> Inl e
      | Inr v \<Rightarrow>
     (case py_getitem item ''number'' of
        Inl e \<Rightarrow> Inl e
      | Inr n \<Rightarrow>
     (case py_int n of
        Inl e \<Rightarrow> Inl e
      | Inr c \<Rightarrow>
     (case py_getitem item ''openTime'' of
        Inl e \<Rightarrow> Inl e
      | Inr t \<Rightarrow> Inr (py_str v, c, t)))))"

text \<open>
  One round of the loop. \<open>w\<close> is what other writers try to commit between this round's
  SELECT and its INSERT. The result is the exception together with the transaction as it
  stands, or the transaction and whether a row was inserted.
\<close>

definition process_item :: "(json list \<Rightarrow> exn + string) \<Rightarrow> string option \<Rightarrow> txn \<Rightarrow> row list \<Rightarrow> json \<Rightarrow> exn \<times> txn + txn \<times> bool" where
  "process_item arr url tx w item =
     (case item_fields item of
        Inl e \<Rightarrow> Inl (e, tx)
      | Inr (i, c, t) \<Rightarrow>
     (case select_issue url tx i of
        Inl e \<Rightarrow> Inl (e, tx)
      | Inr found \<Rightarrow>
          if found then Inr (meanwhile url tx w, False)
          else (case insert_row arr url (meanwhile url tx w) i c t of
                  Inl e \<Rightarrow> Inl (e, meanwhile url tx w)
                | Inr tx' \<Rightarrow> Inr (tx', True))))"

text \<open>The loop with its counter \<open>new_count\<close>; \<open>ws\<close> gives the other writers' commits round
  by round (none once the list is used up).\<close>

fun run_items :: "(json list \<Rightarrow> exn + string) \<Rightarrow> string option \<Rightarrow> txn \<Rightarrow> nat \<Rightarrow> json list \<Rightarrow> row list list \<Rightarrow> exn \<times> txn + txn \<times> nat" where
  "run_items arr url tx new_count [] ws = Inr (tx, new_count)"
| "run_items arr url tx new_count (item # items) ws =
     (case process_item arr url tx (case ws of [] \<Rightarrow> [] | w # _ \<Rightarrow> w) item of
        Inl err \<Rightarrow> Inl err
      | Inr (tx', inserted) \<Rightarrow>
          run_items arr url tx' (if inserted then new_count + 1 else new_count) items (tl ws))"

text \<open>The lines \<open>fetch_job\<close> prints, without their timestamps.\<close>

datatype log_line =
    FetchingData
  | SavedNewRecords nat
  | ErrorInFetchJob exn

text \<open>
  \<open>fetch_job\<close>: from the committed store to the committed store afterwards, and the lines
  printed. \<open>conn.commit()\<close> is reached only when the loop ends; when an exception leaves
  the \<open>try\<close>, the connection is dropped uncommitted and its inserts are gone. \<open>fault\<close> is
  the text of the exception \<open>get_db_connection\<close> raises, if it does, and \<open>ws\<close> what other
  writers try to commit, round by round.
\<close>

definition fetch_job :: "(json list \<Rightarrow> exn + string) \<Rightarrow> string option \<Rightarrow> upstream \<Rightarrow> string option \<Rightarrow> row list list \<Rightarrow> store \<Rightarrow> store \<times> log_line list" where
  "fetch_job arr url up fault ws st =
     (case upstream_data up of
        Inl e \<Rightarrow> (st, [FetchingData, ErrorInFetchJob e])
      | Inr data \<Rightarrow>
     (case get_db_connection url fault of
        Inl e \<Rightarrow> (st, [FetchingData, ErrorInFetchJob e])
      | Inr _ \<Rightarrow>
     (case py_iter data of
        Inl e \<Rightarrow> (st, [FetchingData, ErrorInFetchJob e])
      | Inr items \<Rightarrow>
     (case run_items arr url \<lparr>base = st, own = []\<rparr> 0 items ws of
        Inl (e, tx) \<Rightarrow> (base tx, [FetchingData, ErrorInFetchJob e])
      | Inr (tx, new_count) \<Rightarrow>
          (visible tx,
           if new_count > 0 then [FetchingData, SavedNewRecords new_count]
           else [FetchingData])))))"

section \<open>The API: \<open>get_history\<close>\<close>

text \<open>
  \<open>SELECT issue, code, open_time FROM history ORDER BY issue DESC LIMIT n\<close>, with the
  limit as a parameter. Strings are compared character by character, which is the order
  of their UTF-8 bytes (SQLite's BINARY collation, Postgres' C collation).
\<close>

definition select_recent :: "nat \<Rightarrow> store \<Rightarrow> row list" where
  "select_recent n st = take n (rev (sort_key issue st))"

definition format_row :: "string option \<Rightarrow> row \<Rightarrow> json" where
  "format_row url r =
     (if use_postgres url
      then JObj [(''issueNumber'', JStr (issue r)),
                 (''number'', JStr (str_int (code r))),
                 (''openTime'', case open_time r of None \<Rightarrow> JNull | Some s \<Rightarrow> JStr s)]
      else JObj [(''issueNumber'', JStr (issue r)),
                 (''number'', JStr (str_int (code r))),
                 (''openTime'', case open_time r of None \<Rightarrow> JNull | Some s \<Rightarrow> JStr s)])"

text \<open>
  \<open>get_history\<close>: the JSON body and the HTTP status. \<open>fault\<close> is \<open>str(e)\<close> of the
  exception that a store operation inside the \<open>try\<close> (connecting, the query, fetching,
  closing) raises, if one does; the handler returns it with status 500.
\<close>

definition get_history :: "string option \<Rightarrow> string option \<Rightarrow> store \<Rightarrow> json \<times> nat" where
  "get_history url fault st =
     (case fault of
        Some msg \<Rightarrow> (JObj [(''error'', JStr msg)], 500)
      | None \<Rightarrow>
          (let formatted_list = map (format_row url) (select_recent 50 st)
           in (JObj [(''code'', JNum 0),
                     (''msg'', JStr ''Success''),
                     (''data'', JObj [(''totalCount'', JNum (int (length formatted_list))),
                                      (''list'', JArr formatted_list)])],
               200)))"

section \<open>Sample data\<close>

text \<open>Two well-formed items, one without its \<open>number\<close>, a reply carrying a list of
  items, the rows the two items become, and a Postgres that refuses every array (no sample
  item holds a list).\<close>

abbreviation item100 :: json where
  "item100 \<equiv> JObj [(''issueNumber'', JStr ''100''), (''number'', JNum 7),
                    (''openTime'', JStr ''2024-01-01T00:00:00'')]"

abbreviation item101 :: json where
  "item101 \<equiv> JObj [(''issueNumber'', JStr ''101''), (''number'', JNum 3),
                    (''openTime'', JStr ''2024-01-01T00:01:00'')]"

abbreviation no_number :: json where
  "no_number \<equiv> JObj [(''issueNumber'', JStr ''101''), (''openTime'', JStr ''2024-01-01T00:01:00'')]"

abbreviation reply_with :: "json list \<Rightarrow> upstream" where
  "reply_with items \<equiv> Reply 200 (Some (JObj [(''data'', JObj [(''list'', JArr items)])]))"

abbreviation refuses_lists :: "json list \<Rightarrow> exn + string" where
  "refuses_lists \<equiv> \<lambda>xs. Inl DataError"

abbreviation row100 :: row where
  "row100 \<equiv> \<lparr>issue = ''100'', code = 7, open_time = Some ''2024-01-01T00:00:00''\<rparr>"

abbreviation row101 :: row where
  "row101 \<equiv> \<lparr>issue = ''101'', code = 3, open_time = Some ''2024-01-01T00:01:00''\<rparr>"

section \<open>Facts about the loop\<close>

subsection \<open>Commits of other writers\<close>

lemma others_commit_own [simp]: "own (others_commit tx w) = own tx"
  by (induction w arbitrary: tx) auto

lemma others_commit_base:
  "\<exists>extra. base (others_commit tx w) = base tx @ extra \<and> set extra \<subseteq> set w"
proof (induction w arbitrary: tx)
  case Nil
  then show ?case by simp
next
  case (Cons r rs)
  let ?tx = "if issue r \<in> set (map issue (visible tx)) then tx else tx\<lparr>base := base tx @ [r]\<rparr>"
  from Cons.IH [of ?tx] obtain extra
    where e: "base (others_commit ?tx rs) = base ?tx @ extra" "set extra \<subseteq> set rs"
    by blast
  show ?case
  proof (cases "issue r \<in> set (map issue (visible tx))")
    case True
    with e show ?thesis by auto
  next
    case False
    with e have "base (others_commit tx (r # rs)) = base tx @ (r # extra)" by simp
    moreover from e have "set (r # extra) \<subseteq> set (r # rs)" by auto
    ultimately show ?thesis by blast
  qed
qed

lemma others_commit_issues:
  "issue ` set (visible (others_commit tx w)) = issue ` set (visible tx) \<union> issue ` set w"
  by (induction w arbitrary: tx) (auto simp: visible_def)

lemma others_commit_distinct:
  "distinct (map issue (visible tx)) \<Longrightarrow> distinct (map issue (visible (others_commit tx w)))"
  by (induction w arbitrary: tx) (auto simp: visible_def)



lemma meanwhile_own [simp]: "own (meanwhile url tx w) = own tx"
  by (simp add: meanwhile_def)

lemma meanwhile_quiet [simp]: "meanwhile url tx [] = tx"
  by (simp add: meanwhile_def)

lemma meanwhile_base:
  "\<exists>extra. base (meanwhile url tx w) = base tx @ extra \<and> set extra \<subseteq> set w"
proof (cases "use_postgres url \<or> own tx = []")
  case True
  with others_commit_base [of tx w] show ?thesis by (simp add: meanwhile_def)
next
  case False
  then show ?thesis by (simp add: meanwhile_def)
qed

lemma meanwhile_issues:
  "issue ` set (visible tx) \<subseteq> issue ` set (visible (meanwhile url tx w))"
  by (simp add: meanwhile_def others_commit_issues)

lemma meanwhile_distinct:
  "distinct (map issue (visible tx)) \<Longrightarrow> distinct (map issue (visible (meanwhile url tx w)))"
  by (simp add: meanwhile_def others_commit_distinct)

subsection \<open>One round\<close>

lemma visible_own_update [simp]: "visible (tx\<lparr>own := xs\<rparr>) = base tx @ xs"
  by (simp add: visible_def)

lemma process_item_Inr:
  assumes "process_item arr url tx w item = Inr (tx', ins)"
  shows "\<exists>i c t c' t'. item_fields item = Inr (i, c, t) \<and> bind_issue url i = Inr i
           \<and> (ins \<longleftrightarrow> i \<notin> issue ` set (visible tx))
           \<and> base tx' = base (meanwhile url tx w)
           \<and> own tx' = own tx @ (if ins then [\<lparr>issue = i, code = c', open_time = t'\<rparr>] else [])
           \<and> (ins \<longrightarrow> bind_code url c = Inr c' \<and> bind_open_time arr url t = Inr t'
                  \<and> i \<notin> issue ` set (visible (meanwhile url tx w)))
           \<and> i \<in> issue ` set (visible tx')"
proof -
  from assms obtain i c t where f: "item_fields item = Inr (i, c, t)"
    by (auto simp: process_item_def split: sum.splits)
  from assms f obtain found where s: "select_issue url tx i = Inr found"
    by (auto simp: process_item_def split: sum.splits)
  from s have b: "bind_issue url i = Inr i" and fd: "found \<longleftrightarrow> i \<in> issue ` set (visible tx)"
    by (auto simp: select_issue_def bind_issue_def split: sum.splits if_splits)
  show ?thesis
  proof (cases found)
    case True
    with assms f s have t: "tx' = meanwhile url tx w" "\<not> ins"
      by (auto simp: process_item_def)
    from True fd have "i \<in> issue ` set (visible (meanwhile url tx w))"
      using meanwhile_issues by blast
    with t True fd f b have
      "item_fields item = Inr (i, c, t) \<and> bind_issue url i = Inr i
           \<and> (ins \<longleftrightarrow> i \<notin> issue ` set (visible tx))
           \<and> base tx' = base (meanwhile url tx w)
           \<and> own tx' = own tx @ (if ins then [\<lparr>issue = i, code = 0, open_time = None\<rparr>] else [])
           \<and> (ins \<longrightarrow> bind_code url c = Inr 0 \<and> bind_open_time arr url t = Inr None
                  \<and> i \<notin> issue ` set (visible (meanwhile url tx w)))
           \<and> i \<in> issue ` set (visible tx')"
      by simp
    then show ?thesis by blast
  next
    case False
    with assms f s have ins: "insert_row arr url (meanwhile url tx w) i c t = Inr tx'" "ins"
      by (auto simp: process_item_def split: sum.splits)
    from ins(1) b obtain c' t' where bc: "bind_code url c = Inr c'"
      and bt: "bind_open_time arr url t = Inr t'"
      by (auto simp: insert_row_def split: sum.splits)
    from ins(1) b bc bt have ni: "i \<notin> issue ` set (visible (meanwhile url tx w))"
      and tx': "tx' = (meanwhile url tx w)\<lparr>own := own (meanwhile url tx w) @ [\<lparr>issue = i, code = c', open_time = t'\<rparr>]\<rparr>"
      by (auto simp: insert_row_def split: if_splits)
    from tx' have o: "own tx' = own tx @ [\<lparr>issue = i, code = c', open_time = t'\<rparr>]"
      and bb: "base tx' = base (meanwhile url tx w)"
      by simp_all
    from o have v: "i \<in> issue ` set (visible tx')"
      by (simp add: visible_def)
    from False fd f b ins(2) bc bt ni o bb v have
      "item_fields item = Inr (i, c, t) \<and> bind_issue url i = Inr i
           \<and> (ins \<longleftrightarrow> i \<notin> issue ` set (visible tx))
           \<and> base tx' = base (meanwhile url tx w)
           \<and> own tx' = own tx @ (if ins then [\<lparr>issue = i, code = c', open_time = t'\<rparr>] else [])
           \<and> (ins \<longrightarrow> bind_code url c = Inr c' \<and> bind_open_time arr url t = Inr t'
                  \<and> i \<notin> issue ` set (visible (meanwhile url tx w)))
           \<and> i \<in> issue ` set (visible tx')"
      by simp
    then show ?thesis by blast
  qed
qed

lemma process_item_Inl:
  assumes "process_item arr url tx w item = Inl (e, tx')"
  shows "own tx' = own tx \<and> (tx' = tx \<or> tx' = meanwhile url tx w)"
  using assms
  by (auto simp: process_item_def split: sum.splits prod.splits if_splits)

lemma process_item_malformed:
  "item_fields item = Inl e \<Longrightarrow> process_item arr url tx w item = Inl (e, tx)"
  by (simp add: process_item_def)

lemma process_item_present:
  "item_fields item = Inr (i, c, t) \<Longrightarrow> bind_issue url i = Inr i
     \<Longrightarrow> i \<in> set (map issue (visible tx))
     \<Longrightarrow> process_item arr url tx w item = Inr (meanwhile url tx w, False)"
  by (simp add: process_item_def select_issue_def)


subsection \<open>The whole loop\<close>

lemma run_items_Cons_Inr:
  assumes "run_items arr url tx n (it # items) ws = Inr (tx', n')"
  shows "\<exists>tx1 ins. process_item arr url tx (case ws of [] \<Rightarrow> [] | w # _ \<Rightarrow> w) it = Inr (tx1, ins)
           \<and> run_items arr url tx1 (if ins then n + 1 else n) items (tl ws) = Inr (tx', n')"
proof (cases "process_item arr url tx (case ws of [] \<Rightarrow> [] | w # _ \<Rightarrow> w) it")
  case (Inl a)
  with assms show ?thesis by simp
next
  case (Inr b)
  obtain tx1 ins where "b = (tx1, ins)" by (cases b)
  with assms Inr show ?thesis by simp
qed

lemma run_items_Cons_Inl:
  assumes "run_items arr url tx n (it # items) ws = Inl (e, tx')"
  shows "process_item arr url tx (case ws of [] \<Rightarrow> [] | w # _ \<Rightarrow> w) it = Inl (e, tx')
       \<or> (\<exists>tx1 ins. process_item arr url tx (case ws of [] \<Rightarrow> [] | w # _ \<Rightarrow> w) it = Inr (tx1, ins)
           \<and> run_items arr url tx1 (if ins then n + 1 else n) items (tl ws) = Inl (e, tx'))"
proof (cases "process_item arr url tx (case ws of [] \<Rightarrow> [] | w # _ \<Rightarrow> w) it")
  case (Inl a)
  with assms show ?thesis by simp
next
  case (Inr b)
  obtain tx1 ins where "b = (tx1, ins)" by (cases b)
  with assms Inr show ?thesis by simp
qed

lemma head_commits_subset: "set (case ws of [] \<Rightarrow> [] | w # _ \<Rightarrow> w) \<subseteq> \<Union> (set ` set ws)"
  by (cases ws) auto

lemma tail_commits_subset: "\<Union> (set ` set (tl ws)) \<subseteq> \<Union> (set ` set ws)"
  by (cases ws) auto

lemma base_step:
  assumes "base tx1 = base (meanwhile url tx (case ws of [] \<Rightarrow> [] | w # _ \<Rightarrow> w))"
      and "base tx' = base tx1 @ extra" "set extra \<subseteq> \<Union> (set ` set (tl ws))"
  shows "\<exists>extra'. base tx' = base tx @ extra' \<and> set extra' \<subseteq> \<Union> (set ` set ws)"
proof -
  obtain e1 where e1: "base (meanwhile url tx (case ws of [] \<Rightarrow> [] | w # _ \<Rightarrow> w)) = base tx @ e1"
    "set e1 \<subseteq> set (case ws of [] \<Rightarrow> [] | w # _ \<Rightarrow> w)"
    using meanwhile_base by blast
  with assms have "base tx' = base tx @ (e1 @ extra)" by simp
  moreover have "set (e1 @ extra) \<subseteq> \<Union> (set ` set ws)"
    using e1(2) assms(3) head_commits_subset [of ws] tail_commits_subset [of ws] by auto
  ultimately show ?thesis by blast
qed

lemma run_items_base_Inr:
  "run_items arr url tx n items ws = Inr (tx', n')
     \<Longrightarrow> \<exists>extra. base tx' = base tx @ extra \<and> set extra \<subseteq> \<Union> (set ` set ws)"
proof (induction items arbitrary: tx n ws)
  case Nil
  then show ?case by simp
next
  case (Cons it items)
  from run_items_Cons_Inr [OF Cons.prems] obtain tx1 ins where
    p: "process_item arr url tx (case ws of [] \<Rightarrow> [] | w # _ \<Rightarrow> w) it = Inr (tx1, ins)" and
    r: "run_items arr url tx1 (if ins then n + 1 else n) items (tl ws) = Inr (tx', n')"
    by blast
  from process_item_Inr [OF p]
  have b: "base tx1 = base (meanwhile url tx (case ws of [] \<Rightarrow> [] | w # _ \<Rightarrow> w))" by blast
  from Cons.IH [OF r] obtain extra where
    "base tx' = base tx1 @ extra" "set extra \<subseteq> \<Union> (set ` set (tl ws))" by blast
  with b show ?case by (rule base_step)
qed

lemma run_items_base_Inl:
  "run_items arr url tx n items ws = Inl (e, tx')
     \<Longrightarrow> \<exists>extra. base tx' = base tx @ extra \<and> set extra \<subseteq> \<Union> (set ` set ws)"
proof (induction items arbitrary: tx n ws)
  case Nil
  then show ?case by simp
next
  case (Cons it items)
  from run_items_Cons_Inl [OF Cons.prems] show ?case
  proof
    assume p: "process_item arr url tx (case ws of [] \<Rightarrow> [] | w # _ \<Rightarrow> w) it = Inl (e, tx')"
    from process_item_Inl [OF p]
    have "tx' = tx \<or> tx' = meanwhile url tx (case ws of [] \<Rightarrow> [] | w # _ \<Rightarrow> w)" by blast
    then show ?thesis
    proof
      assume "tx' = tx"
      then show ?thesis by simp
    next
      assume "tx' = meanwhile url tx (case ws of [] \<Rightarrow> [] | w # _ \<Rightarrow> w)"
      then have "base tx' = base (meanwhile url tx (case ws of [] \<Rightarrow> [] | w # _ \<Rightarrow> w))" by simp
      moreover have "base tx' = base tx' @ []" "set [] \<subseteq> \<Union> (set ` set (tl ws))" by simp_all
      ultimately show ?thesis by (rule base_step)
    qed
  next
    assume "\<exists>tx1 ins. process_item arr url tx (case ws of [] \<Rightarrow> [] | w # _ \<Rightarrow> w) it = Inr (tx1, ins)
           \<and> run_items arr url tx1 (if ins then n + 1 else n) items (tl ws) = Inl (e, tx')"
    then obtain tx1 ins where
      p: "process_item arr url tx (case ws of [] \<Rightarrow> [] | w # _ \<Rightarrow> w) it = Inr (tx1, ins)" and
      r: "run_items arr url tx1 (if ins then n + 1 else n) items (tl ws) = Inl (e, tx')"
      by blast
    from process_item_Inr [OF p]
    have b: "base tx1 = base (meanwhile url tx (case ws of [] \<Rightarrow> [] | w # _ \<Rightarrow> w))" by blast
    from Cons.IH [OF r] obtain extra where
      "base tx' = base tx1 @ extra" "set extra \<subseteq> \<Union> (set ` set (tl ws))" by blast
    with b show ?thesis by (rule base_step)
  qed
qed

lemma run_items_quiet_base_Inr:
  "run_items arr url tx n items [] = Inr (tx', n') \<Longrightarrow> base tx' = base tx"
  using run_items_base_Inr [of arr url tx n items "[]" tx' n'] by auto

lemma run_items_quiet_base_Inl:
  "run_items arr url tx n items [] = Inl (e, tx') \<Longrightarrow> base tx' = base tx"
  using run_items_base_Inl [of arr url tx n items "[]" e tx'] by auto

lemma run_items_distinct:
  "run_items arr url tx n items ws = Inr (tx', n') \<Longrightarrow> distinct (map issue (visible tx))
     \<Longrightarrow> distinct (map issue (visible tx'))"
proof (induction items arbitrary: tx n ws)
  case Nil
  then show ?case by simp
next
  case (Cons it items)
  from run_items_Cons_Inr [OF Cons.prems(1)] obtain tx1 ins where
    p: "process_item arr url tx (case ws of [] \<Rightarrow> [] | w # _ \<Rightarrow> w) it = Inr (tx1, ins)" and
    r: "run_items arr url tx1 (if ins then n + 1 else n) items (tl ws) = Inr (tx', n')"
    by blast
  let ?o = "meanwhile url tx (case ws of [] \<Rightarrow> [] | w # _ \<Rightarrow> w)"
  have d: "distinct (map issue (visible ?o))"
    using Cons.prems(2) by (rule meanwhile_distinct)
  from process_item_Inr [OF p] obtain r where
    v: "base tx1 = base ?o" "own tx1 = own tx @ (if ins then [r] else [])"
       "ins \<longrightarrow> issue r \<notin> issue ` set (visible ?o)"
    by fastforce
  have "visible tx1 = visible ?o @ (if ins then [r] else [])"
    using v(1,2) by (simp add: visible_def)
  with d v(3) have "distinct (map issue (visible tx1))"
    by simp
  with r show ?case by (rule Cons.IH)
qed

lemma run_items_own:
  "run_items arr url tx n items ws = Inr (tx', n')
     \<Longrightarrow> \<exists>new. own tx' = own tx @ new \<and> n' = n + length new
           \<and> (\<forall>r\<in>set new. issue r \<notin> issue ` set (visible tx)
                 \<and> (\<exists>it\<in>set items. \<exists>c t. item_fields it = Inr (issue r, c, t)
                       \<and> bind_code url c = Inr (code r)
                       \<and> bind_open_time arr url t = Inr (open_time r)))"
proof (induction items arbitrary: tx n ws)
  case Nil
  then show ?case by simp
next
  case (Cons it items)
  from run_items_Cons_Inr [OF Cons.prems] obtain tx1 ins where
    p: "process_item arr url tx (case ws of [] \<Rightarrow> [] | w # _ \<Rightarrow> w) it = Inr (tx1, ins)" and
    r: "run_items arr url tx1 (if ins then n + 1 else n) items (tl ws) = Inr (tx', n')"
    by blast
  let ?o = "meanwhile url tx (case ws of [] \<Rightarrow> [] | w # _ \<Rightarrow> w)"
  from process_item_Inr [OF p] obtain i c t c' t' where
    f: "item_fields it = Inr (i, c, t)" and
    b: "base tx1 = base ?o" and
    o: "own tx1 = own tx @ (if ins then [\<lparr>issue = i, code = c', open_time = t'\<rparr>] else [])" and
    s: "ins \<longrightarrow> bind_code url c = Inr c' \<and> bind_open_time arr url t = Inr t'
                  \<and> i \<notin> issue ` set (visible ?o)"
    by blast
  from Cons.IH [OF r] obtain new where
    n: "own tx' = own tx1 @ new" "n' = (if ins then n + 1 else n) + length new"
       "\<forall>r\<in>set new. issue r \<notin> issue ` set (visible tx1)
                 \<and> (\<exists>it\<in>set items. \<exists>c t. item_fields it = Inr (issue r, c, t)
                       \<and> bind_code url c = Inr (code r)
                       \<and> bind_open_time arr url t = Inr (open_time r))"
    by blast
  have sub: "issue ` set (visible tx) \<subseteq> issue ` set (visible tx1)"
    using b o meanwhile_issues [of tx url "case ws of [] \<Rightarrow> [] | w # _ \<Rightarrow> w"]
    by (auto simp: visible_def)
  let ?new = "(if ins then [\<lparr>issue = i, code = c', open_time = t'\<rparr>] else []) @ new"
  have 1: "own tx' = own tx @ ?new" using n(1) o by simp
  have 2: "n' = n + length ?new" using n(2) by simp
  have 3: "\<forall>r\<in>set ?new. issue r \<notin> issue ` set (visible tx)
                 \<and> (\<exists>it'\<in>set (it # items). \<exists>c t. item_fields it' = Inr (issue r, c, t)
                       \<and> bind_code url c = Inr (code r)
                       \<and> bind_open_time arr url t = Inr (open_time r))"
  proof
    fix r assume "r \<in> set ?new"
    then consider "ins" "r = \<lparr>issue = i, code = c', open_time = t'\<rparr>" | "r \<in> set new"
      by (auto split: if_splits)
    then show "issue r \<notin> issue ` set (visible tx)
                 \<and> (\<exists>it'\<in>set (it # items). \<exists>c t. item_fields it' = Inr (issue r, c, t)
                       \<and> bind_code url c = Inr (code r)
                       \<and> bind_open_time arr url t = Inr (open_time r))"
    proof cases
      case 1
      with s f have k: "issue r \<notin> issue ` set (visible ?o)"
        "item_fields it = Inr (issue r, c, t)" "bind_code url c = Inr (code r)"
        "bind_open_time arr url t = Inr (open_time r)"
        by simp_all
      have "issue ` set (visible tx) \<subseteq> issue ` set (visible ?o)"
        using meanwhile_issues by blast
      with k(1) have "issue r \<notin> issue ` set (visible tx)" by blast
      moreover from k(2,3,4) have "\<exists>it'\<in>set (it # items). \<exists>c t. item_fields it' = Inr (issue r, c, t)
                       \<and> bind_code url c = Inr (code r)
                       \<and> bind_open_time arr url t = Inr (open_time r)"
        by (intro bexI [of _ it] exI [of _ c] exI [of _ t]) simp_all
      ultimately show ?thesis by (rule conjI)
    next
      case 2
      with n(3) have k: "issue r \<notin> issue ` set (visible tx1)"
        and "\<exists>it\<in>set items. \<exists>c t. item_fields it = Inr (issue r, c, t)
                       \<and> bind_code url c = Inr (code r)
                       \<and> bind_open_time arr url t = Inr (open_time r)"
        by blast+
      then obtain it' ca ta where "it' \<in> set items" "item_fields it' = Inr (issue r, ca, ta)"
        "bind_code url ca = Inr (code r)" "bind_open_time arr url ta = Inr (open_time r)"
        by blast
      then have "\<exists>it'\<in>set (it # items). \<exists>c t. item_fields it' = Inr (issue r, c, t)
                       \<and> bind_code url c = Inr (code r)
                       \<and> bind_open_time arr url t = Inr (open_time r)"
        by (intro bexI [of _ it'] exI [of _ ca] exI [of _ ta]) simp_all
      moreover from k sub have "issue r \<notin> issue ` set (visible tx)" by blast
      ultimately show ?thesis by blast
    qed
  qed
  from 1 2 3 show ?case by blast
qed

lemma run_items_issues:
  "run_items arr url tx n items ws = Inr (tx', n')
     \<Longrightarrow> issue ` set (visible tx) \<subseteq> issue ` set (visible tx')
       \<and> (\<forall>it\<in>set items. \<exists>i c t. item_fields it = Inr (i, c, t) \<and> bind_issue url i = Inr i
              \<and> i \<in> issue ` set (visible tx'))"
proof (induction items arbitrary: tx n ws)
  case Nil
  then show ?case by simp
next
  case (Cons it items)
  from run_items_Cons_Inr [OF Cons.prems] obtain tx1 ins where
    p: "process_item arr url tx (case ws of [] \<Rightarrow> [] | w # _ \<Rightarrow> w) it = Inr (tx1, ins)" and
    r: "run_items arr url tx1 (if ins then n + 1 else n) items (tl ws) = Inr (tx', n')"
    by blast
  from process_item_Inr [OF p] obtain i c t c' t' where
    f: "item_fields it = Inr (i, c, t)" "bind_issue url i = Inr i" and
    b: "base tx1 = base (meanwhile url tx (case ws of [] \<Rightarrow> [] | w # _ \<Rightarrow> w))" and
    o: "own tx1 = own tx @ (if ins then [\<lparr>issue = i, code = c', open_time = t'\<rparr>] else [])" and
    v: "i \<in> issue ` set (visible tx1)"
    by blast
  have sub: "issue ` set (visible tx) \<subseteq> issue ` set (visible tx1)"
    using b o meanwhile_issues [of tx url "case ws of [] \<Rightarrow> [] | w # _ \<Rightarrow> w"]
    by (auto simp: visible_def)
  from Cons.IH [OF r] have
    ih1: "issue ` set (visible tx1) \<subseteq> issue ` set (visible tx')" and
    ih2: "\<forall>it\<in>set items. \<exists>i c t. item_fields it = Inr (i, c, t) \<and> bind_issue url i = Inr i
              \<and> i \<in> issue ` set (visible tx')"
    by blast+
  from v ih1 have "i \<in> issue ` set (visible tx')" by blast
  with f ih2 have "\<forall>it'\<in>set (it # items). \<exists>i c t. item_fields it' = Inr (i, c, t)
              \<and> bind_issue url i = Inr i \<and> i \<in> issue ` set (visible tx')"
    by simp
  moreover from sub ih1 have "issue ` set (visible tx) \<subseteq> issue ` set (visible tx')" by blast
  ultimately show ?case by blast
qed

lemma run_items_nothing_new:
  "\<forall>it\<in>set items. \<exists>i c t. item_fields it = Inr (i, c, t) \<and> bind_issue url i = Inr i
        \<and> i \<in> issue ` set (visible tx)
     \<Longrightarrow> run_items arr url tx n items [] = Inr (tx, n)"
proof (induction items)
  case Nil
  then show ?case by simp
next
  case (Cons it items)
  then obtain i c t where "item_fields it = Inr (i, c, t)" "bind_issue url i = Inr i"
    "i \<in> set (map issue (visible tx))"
    by auto
  then have "process_item arr url tx [] it = Inr (meanwhile url tx [], False)"
    by (rule process_item_present)
  moreover have "run_items arr url tx n items [] = Inr (tx, n)"
    using Cons by simp
  ultimately show ?case by simp
qed

lemma run_items_malformed:
  "it \<in> set items \<Longrightarrow> item_fields it = Inl e0 \<Longrightarrow> \<exists>e tx'. run_items arr url tx n items ws = Inl (e, tx')"
proof (induction items arbitrary: tx n ws)
  case Nil
  then show ?case by simp
next
  case (Cons a items)
  show ?case
  proof (cases "process_item arr url tx (case ws of [] \<Rightarrow> [] | w # _ \<Rightarrow> w) a")
    case (Inl err)
    then show ?thesis by (cases err) simp
  next
    case (Inr b)
    obtain tx1 ins where b: "b = (tx1, ins)" by (cases b)
    have "a \<noteq> it"
    proof
      assume "a = it"
      with Cons.prems(2) have "process_item arr url tx (case ws of [] \<Rightarrow> [] | w # _ \<Rightarrow> w) a = Inl (e0, tx)"
        by (simp add: process_item_malformed)
      with Inr show False by simp
    qed
    with Cons.prems(1) have "it \<in> set items" by simp
    from Cons.IH [OF this Cons.prems(2)] obtain e tx' where
      "run_items arr url tx1 (if ins then n + 1 else n) items (tl ws) = Inl (e, tx')" by blast
    with Inr b show ?thesis by simp
  qed
qed

subsection \<open>The whole cycle\<close>

lemma count_list_distinct: "distinct xs \<Longrightarrow> x \<in> set xs \<Longrightarrow> count_list xs x = 1"
  by (induction xs) (auto simp: count_list_0_iff)

lemma fetch_job_commit:
  "upstream_data up = Inr data \<Longrightarrow> py_iter data = Inr items
     \<Longrightarrow> run_items arr url \<lparr>base = st, own = []\<rparr> 0 items ws = Inr (tx, n)
     \<Longrightarrow> fetch_job arr url up None ws st =
           (visible tx, if 0 < n then [FetchingData, SavedNewRecords n] else [FetchingData])"
  by (simp add: fetch_job_def get_db_connection_def)

lemma fetch_job_abort:
  "upstream_data up = Inr data \<Longrightarrow> py_iter data = Inr items
     \<Longrightarrow> run_items arr url \<lparr>base = st, own = []\<rparr> 0 items ws = Inl (e, tx)
     \<Longrightarrow> fetch_job arr url up None ws st = (base tx, [FetchingData, ErrorInFetchJob e])"
  by (simp add: fetch_job_def get_db_connection_def)

lemma fetch_job_cases:
  obtains
    (early) e where "fetch_job arr url up fault ws st = (st, [FetchingData, ErrorInFetchJob e])"
  | (abort) data items e tx where
      "upstream_data up = Inr data" "fault = None" "py_iter data = Inr items"
      "run_items arr url \<lparr>base = st, own = []\<rparr> 0 items ws = Inl (e, tx)"
      "fetch_job arr url up fault ws st = (base tx, [FetchingData, ErrorInFetchJob e])"
  | (commit) data items tx n where
      "upstream_data up = Inr data" "fault = None" "py_iter data = Inr items"
      "run_items arr url \<lparr>base = st, own = []\<rparr> 0 items ws = Inr (tx, n)"
      "fetch_job arr url up fault ws st =
         (visible tx, if 0 < n then [FetchingData, SavedNewRecords n] else [FetchingData])"
proof (cases "upstream_data up")
  case (Inl e)
  then have "fetch_job arr url up fault ws st = (st, [FetchingData, ErrorInFetchJob e])"
    by (simp add: fetch_job_def)
  then show ?thesis by (rule early)
next
  case data: (Inr data)
  show ?thesis
  proof (cases fault)
    case (Some msg)
    with data have "fetch_job arr url up fault ws st = (st, [FetchingData, ErrorInFetchJob (DatabaseError msg)])"
      by (simp add: fetch_job_def get_db_connection_def)
    then show ?thesis by (rule early)
  next
    case None
    show ?thesis
    proof (cases "py_iter data")
      case (Inl e)
      with data None have "fetch_job arr url up fault ws st = (st, [FetchingData, ErrorInFetchJob e])"
        by (simp add: fetch_job_def get_db_connection_def)
      then show ?thesis by (rule early)
    next
      case items: (Inr items)
      show ?thesis
      proof (cases "run_items arr url \<lparr>base = st, own = []\<rparr> 0 items ws")
        case (Inl a)
        obtain e tx where a: "a = (e, tx)" by (cases a)
        with Inl data None items show ?thesis
          using fetch_job_abort [of up data items arr url st ws e tx] by (intro abort) simp_all
      next
        case (Inr b)
        obtain tx n where b: "b = (tx, n)" by (cases b)
        with Inr data None items show ?thesis
          using fetch_job_commit [of up data items arr url st ws tx n] by (intro commit) simp_all
      qed
    qed
  qed
qed

lemmas cycle_defs =
  fetch_job_def upstream_data_def requests_get_def raise_for_status_def response_json_def
  get_db_connection_def item_fields_def process_item_def select_issue_def insert_row_def
  bind_issue_def bind_code_def visible_def py_str_def use_postgres_def meanwhile_def

lemmas history_defs = get_history_def select_recent_def format_row_def str_int_def digit_char_def


section \<open>Properties\<close>

subsection \<open>Running a cycle twice\<close>

text \<open>
  C1. Running the cycle twice against the same upstream reply: the second run leaves the
  store as the first left it and prints no count of new records. When the first run reaches
  its commit, the second run's loop ends with \<open>new_count = 0\<close> and nothing to commit, the
  first run has added exactly \<open>n\<close> rows, and every issue of the reply is stored exactly
  once. (No fault of the connection, no other writer; the table's issues are distinct to
  begin with, as the primary key has it.)
\<close>

theorem fetch_job_idempotent:
  assumes "distinct (map issue st)"
  shows "fst (fetch_job arr url up None [] (fst (fetch_job arr url up None [] st))) = fst (fetch_job arr url up None [] st)
    \<and> (\<forall>k. SavedNewRecords k \<notin> set (snd (fetch_job arr url up None [] (fst (fetch_job arr url up None [] st)))))
    \<and> (\<forall>data items tx n. upstream_data up = Inr data \<longrightarrow> py_iter data = Inr items \<longrightarrow>
         run_items arr url \<lparr>base = st, own = []\<rparr> 0 items [] = Inr (tx, n) \<longrightarrow>
           fst (fetch_job arr url up None [] st) = visible tx
         \<and> run_items arr url \<lparr>base = visible tx, own = []\<rparr> 0 items [] = Inr (\<lparr>base = visible tx, own = []\<rparr>, 0)
         \<and> fetch_job arr url up None [] (visible tx) = (visible tx, [FetchingData])
         \<and> length (visible tx) = length st + n
         \<and> (\<forall>it\<in>set items. \<forall>i c t. item_fields it = Inr (i, c, t) \<longrightarrow>
               count_list (map issue (visible tx)) i = 1))"
proof -
  have committed: "fst (fetch_job arr url up None [] st) = visible tx
         \<and> run_items arr url \<lparr>base = visible tx, own = []\<rparr> 0 items [] = Inr (\<lparr>base = visible tx, own = []\<rparr>, 0)
         \<and> fetch_job arr url up None [] (visible tx) = (visible tx, [FetchingData])
         \<and> length (visible tx) = length st + n
         \<and> (\<forall>it\<in>set items. \<forall>i c t. item_fields it = Inr (i, c, t) \<longrightarrow>
               count_list (map issue (visible tx)) i = 1)"
    if d: "upstream_data up = Inr data" and i: "py_iter data = Inr items"
      and r: "run_items arr url \<lparr>base = st, own = []\<rparr> 0 items [] = Inr (tx, n)"
    for data items tx n
  proof -
    from fetch_job_commit [OF d i r] have 1: "fst (fetch_job arr url up None [] st) = visible tx"
      by simp
    from run_items_issues [OF r] have iss:
      "\<forall>it\<in>set items. \<exists>i c t. item_fields it = Inr (i, c, t) \<and> bind_issue url i = Inr i
              \<and> i \<in> issue ` set (visible tx)"
      by blast
    then have "\<forall>it\<in>set items. \<exists>i c t. item_fields it = Inr (i, c, t) \<and> bind_issue url i = Inr i
              \<and> i \<in> issue ` set (visible \<lparr>base = visible tx, own = []\<rparr>)"
      by (simp add: visible_def)
    then have 2: "run_items arr url \<lparr>base = visible tx, own = []\<rparr> 0 items [] = Inr (\<lparr>base = visible tx, own = []\<rparr>, 0)"
      by (rule run_items_nothing_new)
    from fetch_job_commit [OF d i 2] have 3: "fetch_job arr url up None [] (visible tx) = (visible tx, [FetchingData])"
      by (simp add: visible_def)
    from run_items_quiet_base_Inr [OF r] run_items_own [OF r]
    have 4: "length (visible tx) = length st + n"
      by (auto simp: visible_def)
    from assms have "distinct (map issue (visible \<lparr>base = st, own = []\<rparr>))"
      by (simp add: visible_def)
    with r have dis: "distinct (map issue (visible tx))"
      by (rule run_items_distinct)
    have 5: "\<forall>it\<in>set items. \<forall>i c t. item_fields it = Inr (i, c, t) \<longrightarrow>
               count_list (map issue (visible tx)) i = 1"
    proof (intro ballI allI impI)
      fix it i c t
      assume "it \<in> set items" "item_fields it = Inr (i, c, t)"
      with iss have "i \<in> set (map issue (visible tx))" by fastforce
      with dis show "count_list (map issue (visible tx)) i = 1"
        by (rule count_list_distinct)
    qed
    from 1 2 3 4 5 show ?thesis by blast
  qed
  have twice: "fst (fetch_job arr url up None [] (fst (fetch_job arr url up None [] st))) = fst (fetch_job arr url up None [] st)
    \<and> (\<forall>k. SavedNewRecords k \<notin> set (snd (fetch_job arr url up None [] (fst (fetch_job arr url up None [] st)))))"
  proof (cases rule: fetch_job_cases [of arr url up None "[]" st])
    case (early e)
    then show ?thesis by simp
  next
    case (abort data items e tx)
    from run_items_quiet_base_Inl [OF abort(4)] abort(5) show ?thesis by simp
  next
    case (commit data items tx n)
    from committed [OF commit(1,3,4)] show ?thesis by simp
  qed
  from twice committed show ?thesis by blast
qed

text \<open>The same at a reply with two items and an empty store.\<close>

theorem fetch_job_idempotent_witness:
  "distinct (map issue ([] :: store))
   \<and> upstream_data (reply_with [item100, item101]) = Inr (JArr [item100, item101])
   \<and> py_iter (JArr [item100, item101]) = Inr [item100, item101]
   \<and> run_items refuses_lists None \<lparr>base = [], own = []\<rparr> 0 [item100, item101] []
         = Inr (\<lparr>base = [], own = [row100, row101]\<rparr>, 2)
   \<and> fst (fetch_job refuses_lists None (reply_with [item100, item101]) None [] []) = [row100, row101]
   \<and> run_items refuses_lists None \<lparr>base = [row100, row101], own = []\<rparr> 0 [item100, item101] []
         = Inr (\<lparr>base = [row100, row101], own = []\<rparr>, 0)
   \<and> fetch_job refuses_lists None (reply_with [item100, item101]) None [] [row100, row101]
         = ([row100, row101], [FetchingData])
   \<and> item_fields item100 = Inr (''100'', 7, JStr ''2024-01-01T00:00:00'')
   \<and> count_list (map issue [row100, row101]) ''100'' = 1"
proof -
  have h: "distinct (map issue ([] :: store))" by simp
  have d: "upstream_data (reply_with [item100, item101]) = Inr (JArr [item100, item101])"
    by (simp add: cycle_defs)
  have i: "py_iter (JArr [item100, item101]) = Inr [item100, item101]" by simp
  have r: "run_items refuses_lists None \<lparr>base = [], own = []\<rparr> 0 [item100, item101] []
         = Inr (\<lparr>base = [], own = [row100, row101]\<rparr>, 2)"
    by (simp add: cycle_defs)
  have f: "item_fields item100 = Inr (''100'', 7, JStr ''2024-01-01T00:00:00'')"
    by (simp add: cycle_defs)
  note t = fetch_job_idempotent [OF h, of refuses_lists None "reply_with [item100, item101]",
      THEN conjunct2, THEN conjunct2, rule_format, OF d i r]
  from t h d i r f show ?thesis by (simp add: visible_def)
qed

subsection \<open>The recent records\<close>

text \<open>
  C2. For every store and every limit \<open>n\<close>, the query returns \<open>min n (length st)\<close> rows,
  ordered by issue descending. They are rows of the store, none more often than the store
  holds it, and they are the greatest: no row left out has a greater issue than a row
  returned. \<open>get_history\<close> runs the query with the limit 50 and formats what it returns.
\<close>

theorem select_recent_sorted:
  "sorted (rev (map issue (select_recent n st)))
   \<and> length (select_recent n st) = min n (length st)
   \<and> mset (select_recent n st) \<subseteq># mset st
   \<and> (\<forall>r q. r \<in># mset st - mset (select_recent n st) \<longrightarrow> q \<in> set (select_recent n st)
          \<longrightarrow> issue r \<le> issue q)
   \<and> get_history url None st =
       (JObj [(''code'', JNum 0), (''msg'', JStr ''Success''),
              (''data'', JObj [(''totalCount'', JNum (int (min 50 (length st)))),
                               (''list'', JArr (map (format_row url) (select_recent 50 st)))])],
        200)"
proof -
  let ?xs = "rev (sort_key issue st)"
  have "rev (map issue (select_recent n st))
          = drop (length st - n) (map issue (sort_key issue st))"
    by (simp add: select_recent_def rev_map rev_take drop_map)
  moreover have "sorted (map issue (sort_key issue st))"
    by (rule sorted_sort_key)
  ultimately have 1: "sorted (rev (map issue (select_recent n st)))"
    by (simp add: sorted_wrt_drop)
  have 2: "length (select_recent k st) = min k (length st)" for k
    by (simp add: select_recent_def min.commute)
  have split: "mset (take n ?xs) + mset (drop n ?xs) = mset st"
    by (simp add: union_code)
  have 3: "mset (select_recent n st) \<subseteq># mset st"
    unfolding select_recent_def using split by (metis mset_subset_eq_add_left)
  have rest: "mset st - mset (select_recent n st) = mset (drop n ?xs)"
    unfolding select_recent_def using split by (metis add_diff_cancel_left')
  have "sorted_wrt (\<lambda>a b. issue b \<le> issue a) ?xs"
    using sorted_sort_key [of issue st] by (simp add: sorted_wrt_rev sorted_map)
  then have "sorted_wrt (\<lambda>a b. issue b \<le> issue a) (take n ?xs @ drop n ?xs)"
    by simp
  then have le: "\<forall>q\<in>set (take n ?xs). \<forall>r\<in>set (drop n ?xs). issue r \<le> issue q"
    unfolding sorted_wrt_append by blast
  have 4: "\<forall>r q. r \<in># mset st - mset (select_recent n st) \<longrightarrow> q \<in> set (select_recent n st)
          \<longrightarrow> issue r \<le> issue q"
    using le by (simp add: rest) (simp add: select_recent_def)
  have 5: "get_history url None st =
       (JObj [(''code'', JNum 0), (''msg'', JStr ''Success''),
              (''data'', JObj [(''totalCount'', JNum (int (min 50 (length st)))),
                               (''list'', JArr (map (format_row url) (select_recent 50 st)))])],
        200)"
    using 2 [of 50] by (simp add: get_history_def)
  from 1 2 [of n] 3 4 5 show ?thesis by blast
qed

text \<open>At a store of three rows and the limit 2: the rows of the issues 101 and 100 are
  returned, in this order, and the row left out has the least issue.\<close>

theorem select_recent_sorted_witness:
  "select_recent 2 [row100, \<lparr>issue = ''099'', code = 1, open_time = None\<rparr>, row101] = [row101, row100]
   \<and> \<lparr>issue = ''099'', code = 1, open_time = None\<rparr>
        \<in># mset [row100, \<lparr>issue = ''099'', code = 1, open_time = None\<rparr>, row101]
            - mset (select_recent 2 [row100, \<lparr>issue = ''099'', code = 1, open_time = None\<rparr>, row101])
   \<and> row100 \<in> set (select_recent 2 [row100, \<lparr>issue = ''099'', code = 1, open_time = None\<rparr>, row101])
   \<and> ''099'' \<le> ''100''"
proof -
  have e: "select_recent 2 [row100, \<lparr>issue = ''099'', code = 1, open_time = None\<rparr>, row101] = [row101, row100]"
    by (simp add: select_recent_def)
  have r: "\<lparr>issue = ''099'', code = 1, open_time = None\<rparr>
        \<in># mset [row100, \<lparr>issue = ''099'', code = 1, open_time = None\<rparr>, row101]
            - mset (select_recent 2 [row100, \<lparr>issue = ''099'', code = 1, open_time = None\<rparr>, row101])"
    by (simp add: e)
  have q: "row100 \<in> set (select_recent 2 [row100, \<lparr>issue = ''099'', code = 1, open_time = None\<rparr>, row101])"
    by (simp add: e)
  from select_recent_sorted [of 2 "[row100, \<lparr>issue = ''099'', code = 1, open_time = None\<rparr>, row101]",
      THEN conjunct2, THEN conjunct2, THEN conjunct2, THEN conjunct1, rule_format, OF r q]
  have "''099'' \<le> ''100''" by simp
  with e r q show ?thesis by blast
qed

subsection \<open>One cycle, then the history\<close>

text \<open>
  C3. From the empty store, after one cycle over the reply with the single item
  \<open>{issueNumber: "100", number: 7, openTime: "2024-01-01T00:00:00"}\<close>, \<open>get_history\<close>
  answers with status 200 and \<open>{code: 0, msg: "Success", data: {totalCount: 1, list:
  [{issueNumber: "100", number: "7", openTime: "2024-01-01T00:00:00"}]}}\<close>: the number is
  a string. This holds for either database.
\<close>

theorem history_after_first_cycle:
  "get_history url None (fst (fetch_job arr url (reply_with [item100]) None [] []))
   = (JObj [(''code'', JNum 0), (''msg'', JStr ''Success''),
            (''data'', JObj [(''totalCount'', JNum 1),
               (''list'', JArr [JObj [(''issueNumber'', JStr ''100''), (''number'', JStr ''7''),
                                      (''openTime'', JStr ''2024-01-01T00:00:00'')]])])],
      200)"
  by (simp add: cycle_defs history_defs str_nat.simps)

subsection \<open>A duplicate key\<close>

text \<open>
  C4. The comment above the SELECT says what the two statements are for: insert if not
  exists, as \<open>ON CONFLICT DO NOTHING\<close> or \<open>INSERT OR IGNORE\<close> would. They do not do it
  when another writer commits the issue between the SELECT and the INSERT. With the items
  100 and 101, an empty store and a writer that commits issue 100 during the first round,
  on either database: the INSERT raises IntegrityError, the handler at the end of
  \<open>fetch_job\<close> prints it, and the cycle is over. Item 101 is never looked at, and the store
  holds the other writer's row alone.
\<close>

theorem duplicate_key_aborts_cycle:
  "fetch_job arr url (reply_with [item100, item101]) None
      [[\<lparr>issue = ''100'', code = 7, open_time = Some ''2024-01-01T00:00:00''\<rparr>]] []
   = ([\<lparr>issue = ''100'', code = 7, open_time = Some ''2024-01-01T00:00:00''\<rparr>],
      [FetchingData, ErrorInFetchJob (IntegrityError ''100'')])"
  by (simp add: cycle_defs)

subsection \<open>A malformed item\<close>

text \<open>
  C5, as the code has it. When some item of the reply lacks a required field, or its
  \<open>number\<close> cannot be converted, the exception leaves the loop: the cycle prints an error
  and the store is left as it was, without the rows of the well-formed items either.
\<close>

theorem malformed_item_aborts_cycle:
  assumes "upstream_data up = Inr data" and "py_iter data = Inr items"
      and "it \<in> set items" and "item_fields it = Inl e0"
  shows "\<exists>e. fetch_job arr url up fault [] st = (st, [FetchingData, ErrorInFetchJob e])"
proof (cases rule: fetch_job_cases [of arr url up fault "[]" st])
  case (early e)
  then show ?thesis by blast
next
  case (abort data' items' e tx)
  from run_items_quiet_base_Inl [OF abort(4)] abort(5) show ?thesis by simp
next
  case (commit data' items' tx n)
  with assms(1,2) have "run_items arr url \<lparr>base = st, own = []\<rparr> 0 items [] = Inr (tx, n)" by simp
  moreover from run_items_malformed [OF assms(3,4)] obtain e tx' where
    "run_items arr url \<lparr>base = st, own = []\<rparr> 0 items [] = Inl (e, tx')" by blast
  ultimately show ?thesis by simp
qed

text \<open>At a reply whose second item has no \<open>number\<close>; the first item alone would have been
  inserted.\<close>

theorem malformed_item_aborts_cycle_witness:
  "upstream_data (reply_with [item100, no_number]) = Inr (JArr [item100, no_number])
   \<and> py_iter (JArr [item100, no_number]) = Inr [item100, no_number]
   \<and> no_number \<in> set [item100, no_number]
   \<and> item_fields no_number = Inl (KeyError ''number'')
   \<and> run_items refuses_lists None \<lparr>base = [], own = []\<rparr> 0 [item100] [] = Inr (\<lparr>base = [], own = [row100]\<rparr>, 1)
   \<and> (\<exists>e. fetch_job refuses_lists None (reply_with [item100, no_number]) None [] []
              = ([], [FetchingData, ErrorInFetchJob e]))"
proof -
  have d: "upstream_data (reply_with [item100, no_number]) = Inr (JArr [item100, no_number])"
    by (simp add: cycle_defs)
  have i: "py_iter (JArr [item100, no_number]) = Inr [item100, no_number]" by simp
  have m: "no_number \<in> set [item100, no_number]" by simp
  have f: "item_fields no_number = Inl (KeyError ''number'')"
    by (simp add: cycle_defs)
  have r: "run_items refuses_lists None \<lparr>base = [], own = []\<rparr> 0 [item100] [] = Inr (\<lparr>base = [], own = [row100]\<rparr>, 1)"
    by (simp add: cycle_defs)
  from malformed_item_aborts_cycle [OF d i m f, of refuses_lists None None "[]"] d i m f r
  show ?thesis by simp
qed

text \<open>The well-formed item 100 is not stored when the item after it has no \<open>number\<close>.\<close>

theorem malformed_item_counterexample:
  "fetch_job refuses_lists None (reply_with [item100, no_number]) None [] []
   = ([], [FetchingData, ErrorInFetchJob (KeyError ''number'')])"
  by (simp add: cycle_defs)

subsection \<open>A failing request\<close>

text \<open>
  C6, as the code has it. When the request raises, or the reply has a status for which
  \<open>raise_for_status\<close> raises (400 to 599), the cycle returns with the store unchanged and
  the error printed, whatever the state of the database connection or of other writers. A
  later cycle that reaches its commit then appends one row for each new issue of its reply,
  taken from an item of that reply, keeps the rows that were there, and holds every issue
  of the reply afterwards.
\<close>

theorem upstream_failure_leaves_store:
  assumes "up = RequestFailed msg \<or> (up = Reply s b \<and> 400 \<le> s \<and> s < 600)"
  shows "fetch_job arr url up fault ws st =
           (st, [FetchingData,
                 ErrorInFetchJob (case up of RequestFailed m \<Rightarrow> RequestException m
                                           | Reply k _ \<Rightarrow> HTTPError k)])
     \<and> (\<forall>up' data items tx n.
           upstream_data up' = Inr data \<longrightarrow> py_iter data = Inr items \<longrightarrow>
           run_items arr url \<lparr>base = fst (fetch_job arr url up fault ws st), own = []\<rparr> 0 items [] = Inr (tx, n) \<longrightarrow>
             fetch_job arr url up' None [] (fst (fetch_job arr url up fault ws st)) =
               (st @ own tx, if 0 < n then [FetchingData, SavedNewRecords n] else [FetchingData])
             \<and> length (own tx) = n
             \<and> (\<forall>it\<in>set items. \<exists>i c t. item_fields it = Inr (i, c, t)
                    \<and> i \<in> issue ` set (st @ own tx))
             \<and> (\<forall>r\<in>set (own tx). issue r \<notin> issue ` set st
                    \<and> (\<exists>it\<in>set items. \<exists>c t. item_fields it = Inr (issue r, c, t)
                          \<and> bind_code url c = Inr (code r)
                          \<and> bind_open_time arr url t = Inr (open_time r))))"
proof -
  from assms have 1: "fetch_job arr url up fault ws st =
           (st, [FetchingData,
                 ErrorInFetchJob (case up of RequestFailed m \<Rightarrow> RequestException m
                                           | Reply k _ \<Rightarrow> HTTPError k)])"
    by (auto simp: fetch_job_def upstream_data_def requests_get_def raise_for_status_def)
  have 2: "fetch_job arr url up' None [] st =
               (st @ own tx, if 0 < n then [FetchingData, SavedNewRecords n] else [FetchingData])
             \<and> length (own tx) = n
             \<and> (\<forall>it\<in>set items. \<exists>i c t. item_fields it = Inr (i, c, t)
                    \<and> i \<in> issue ` set (st @ own tx))
             \<and> (\<forall>r\<in>set (own tx). issue r \<notin> issue ` set st
                    \<and> (\<exists>it\<in>set items. \<exists>c t. item_fields it = Inr (issue r, c, t)
                          \<and> bind_code url c = Inr (code r)
                          \<and> bind_open_time arr url t = Inr (open_time r)))"
    if d: "upstream_data up' = Inr data" and i: "py_iter data = Inr items"
      and r: "run_items arr url \<lparr>base = st, own = []\<rparr> 0 items [] = Inr (tx, n)"
    for up' data items tx n
  proof -
    from run_items_quiet_base_Inr [OF r] have b: "base tx = st" by simp
    then have v: "visible tx = st @ own tx" by (simp add: visible_def)
    from fetch_job_commit [OF d i r] v have a: "fetch_job arr url up' None [] st =
               (st @ own tx, if 0 < n then [FetchingData, SavedNewRecords n] else [FetchingData])"
      by simp
    from run_items_own [OF r] have o: "length (own tx) = n"
      "\<forall>r\<in>set (own tx). issue r \<notin> issue ` set st
                    \<and> (\<exists>it\<in>set items. \<exists>c t. item_fields it = Inr (issue r, c, t)
                          \<and> bind_code url c = Inr (code r)
                          \<and> bind_open_time arr url t = Inr (open_time r))"
      by (auto simp: visible_def)
    from run_items_issues [OF r] v have
      "\<forall>it\<in>set items. \<exists>i c t. item_fields it = Inr (i, c, t) \<and> i \<in> issue ` set (st @ own tx)"
      by auto
    with a o show ?thesis by blast
  qed
  from 1 have "fst (fetch_job arr url up fault ws st) = st" by simp
  with 1 2 show ?thesis by auto
qed

text \<open>At a reply with status 500, followed by a cycle over two items, one of them new.\<close>

theorem upstream_failure_leaves_store_witness:
  "(Reply 500 None = RequestFailed [] \<or> (Reply 500 None = Reply 500 None \<and> (400::nat) \<le> 500 \<and> (500::nat) < 600))
   \<and> fetch_job refuses_lists None (Reply 500 None) None [] [row100]
         = ([row100], [FetchingData, ErrorInFetchJob (HTTPError 500)])
   \<and> upstream_data (reply_with [item100, item101]) = Inr (JArr [item100, item101])
   \<and> py_iter (JArr [item100, item101]) = Inr [item100, item101]
   \<and> run_items refuses_lists None \<lparr>base = fst (fetch_job refuses_lists None (Reply 500 None) None [] [row100]), own = []\<rparr> 0
         [item100, item101] [] = Inr (\<lparr>base = [row100], own = [row101]\<rparr>, 1)
   \<and> fetch_job refuses_lists None (reply_with [item100, item101]) None []
         (fst (fetch_job refuses_lists None (Reply 500 None) None [] [row100]))
         = ([row100, row101], [FetchingData, SavedNewRecords 1])"
proof -
  have a: "Reply 500 None = RequestFailed [] \<or> (Reply 500 None = Reply 500 None \<and> (400::nat) \<le> 500 \<and> (500::nat) < 600)"
    by simp
  note t = upstream_failure_leaves_store [OF a, of refuses_lists None None "[]" "[row100]"]
  from t have 1: "fetch_job refuses_lists None (Reply 500 None) None [] [row100]
         = ([row100], [FetchingData, ErrorInFetchJob (HTTPError 500)])"
    by simp
  have d: "upstream_data (reply_with [item100, item101]) = Inr (JArr [item100, item101])"
    by (simp add: cycle_defs)
  have i: "py_iter (JArr [item100, item101]) = Inr [item100, item101]" by simp
  have r: "run_items refuses_lists None \<lparr>base = fst (fetch_job refuses_lists None (Reply 500 None) None [] [row100]), own = []\<rparr> 0
         [item100, item101] [] = Inr (\<lparr>base = [row100], own = [row101]\<rparr>, 1)"
    by (simp add: 1) (simp add: cycle_defs)
  from t [THEN conjunct2, rule_format, OF d i r] have
    "fetch_job refuses_lists None (reply_with [item100, item101]) None []
         (fst (fetch_job refuses_lists None (Reply 500 None) None [] [row100]))
         = ([row100, row101], [FetchingData, SavedNewRecords 1])"
    by simp
  with a 1 d i r show ?thesis by blast
qed

text \<open>A status that is no success and lies outside 400 to 599 does not stop the cycle:
  the body of a reply with status 600 is read and its item stored.\<close>

theorem other_status_counterexample:
  "fetch_job refuses_lists None
      (Reply 600 (Some (JObj [(''data'', JObj [(''list'', JArr [item100])])]))) None [] []
   = ([row100], [FetchingData, SavedNewRecords 1])"
  by (simp add: cycle_defs)

subsection \<open>What a cycle prints\<close>

text \<open>
  C7, as the code has it. Every cycle first prints its \<open>Fetching data...\<close> line. The line
  with the count of new records is printed only with a count greater than zero, which is
  the number of rows the cycle inserted; a cycle that reaches its commit prints it exactly
  when its count is greater than zero, and otherwise prints the first line alone.
\<close>

theorem fetch_job_prints:
  "(\<exists>rest. snd (fetch_job arr url up fault ws st) = FetchingData # rest)
   \<and> (\<forall>k. SavedNewRecords k \<in> set (snd (fetch_job arr url up fault ws st)) \<longrightarrow>
         0 < k \<and> (\<exists>data items tx. upstream_data up = Inr data \<and> py_iter data = Inr items
                     \<and> run_items arr url \<lparr>base = st, own = []\<rparr> 0 items ws = Inr (tx, k)
                     \<and> length (own tx) = k))
   \<and> (\<forall>data items tx k. upstream_data up = Inr data \<longrightarrow> py_iter data = Inr items \<longrightarrow>
         run_items arr url \<lparr>base = st, own = []\<rparr> 0 items ws = Inr (tx, k) \<longrightarrow>
           snd (fetch_job arr url up None ws st) =
             (if 0 < k then [FetchingData, SavedNewRecords k] else [FetchingData]))"
proof -
  have 1: "\<exists>rest. snd (fetch_job arr url up fault ws st) = FetchingData # rest"
    by (cases rule: fetch_job_cases [of arr url up fault ws st]) simp_all
  have 2: "0 < k \<and> (\<exists>data items tx. upstream_data up = Inr data \<and> py_iter data = Inr items
                     \<and> run_items arr url \<lparr>base = st, own = []\<rparr> 0 items ws = Inr (tx, k)
                     \<and> length (own tx) = k)"
    if s: "SavedNewRecords k \<in> set (snd (fetch_job arr url up fault ws st))" for k
  proof (cases rule: fetch_job_cases [of arr url up fault ws st])
    case (early e)
    with s show ?thesis by simp
  next
    case (abort data items e tx)
    with s show ?thesis by simp
  next
    case (commit data items tx n)
    with s have k: "0 < n" "k = n" by (auto split: if_splits)
    from run_items_own [OF commit(4)] have "length (own tx) = n" by auto
    with k commit(1,3,4) show ?thesis by blast
  qed
  have 3: "snd (fetch_job arr url up None ws st) =
             (if 0 < k then [FetchingData, SavedNewRecords k] else [FetchingData])"
    if "upstream_data up = Inr data" "py_iter data = Inr items"
       "run_items arr url \<lparr>base = st, own = []\<rparr> 0 items ws = Inr (tx, k)" for data items tx k
    using fetch_job_commit [OF that] by simp
  from 1 2 3 show ?thesis by blast
qed

text \<open>At a cycle that inserts one row, and at the same reply once the row is stored.\<close>

theorem fetch_job_prints_witness:
  "SavedNewRecords 1 \<in> set (snd (fetch_job refuses_lists None (reply_with [item100]) None [] []))
   \<and> upstream_data (reply_with [item100]) = Inr (JArr [item100])
   \<and> py_iter (JArr [item100]) = Inr [item100]
   \<and> run_items refuses_lists None \<lparr>base = [], own = []\<rparr> 0 [item100] [] = Inr (\<lparr>base = [], own = [row100]\<rparr>, 1)
   \<and> snd (fetch_job refuses_lists None (reply_with [item100]) None [] []) = [FetchingData, SavedNewRecords 1]
   \<and> run_items refuses_lists None \<lparr>base = [row100], own = []\<rparr> 0 [item100] [] = Inr (\<lparr>base = [row100], own = []\<rparr>, 0)
   \<and> snd (fetch_job refuses_lists None (reply_with [item100]) None [] [row100]) = [FetchingData]"
proof -
  have d: "upstream_data (reply_with [item100]) = Inr (JArr [item100])"
    by (simp add: cycle_defs)
  have i: "py_iter (JArr [item100]) = Inr [item100]" by simp
  have r1: "run_items refuses_lists None \<lparr>base = [], own = []\<rparr> 0 [item100] [] = Inr (\<lparr>base = [], own = [row100]\<rparr>, 1)"
    by (simp add: cycle_defs)
  have r0: "run_items refuses_lists None \<lparr>base = [row100], own = []\<rparr> 0 [item100] [] = Inr (\<lparr>base = [row100], own = []\<rparr>, 0)"
    by (simp add: cycle_defs)
  from fetch_job_prints [of refuses_lists None "reply_with [item100]" None "[]" "[]",
      THEN conjunct2, THEN conjunct2, rule_format, OF d i r1]
  have 1: "snd (fetch_job refuses_lists None (reply_with [item100]) None [] []) = [FetchingData, SavedNewRecords 1]"
    by simp
  from fetch_job_prints [of refuses_lists None "reply_with [item100]" None "[]" "[row100]",
      THEN conjunct2, THEN conjunct2, rule_format, OF d i r0]
  have 2: "snd (fetch_job refuses_lists None (reply_with [item100]) None [] [row100]) = [FetchingData]"
    by simp
  from 1 have "SavedNewRecords 1 \<in> set (snd (fetch_job refuses_lists None (reply_with [item100]) None [] []))"
    by simp
  with d i r1 r0 1 2 show ?thesis by blast
qed

text \<open>A cycle over an empty list inserts nothing and still prints a line.\<close>

theorem quiet_cycle_counterexample:
  "fetch_job refuses_lists None (reply_with []) None [] [] = ([], [FetchingData])"
  by (simp add: cycle_defs)

subsection \<open>A failing store in \<open>get_history\<close>\<close>

text \<open>
  C8, as the code has it. When a store operation raises during \<open>get_history\<close>, the answer
  is the object \<open>{error: str(e)}\<close> with status 500: one field, holding the text of the
  exception as the driver wrote it, with nothing added and nothing removed.
\<close>

theorem history_store_failure:
  "get_history url (Some msg) st = (JObj [(''error'', JStr msg)], 500)"
  by (simp add: get_history_def)

text \<open>The text is not filtered. psycopg2 quotes a connection string it cannot parse in the
  error it raises; with \<open>DATABASE_URL = db.internal\<close> the answer contains that string.\<close>

theorem history_leaks_connection_string:
  "get_history (Some ''db.internal'')
     (Some (''invalid dsn: missing '' @ [CHR 0x22] @ ''='' @ [CHR 0x22] @ '' after '' @ [CHR 0x22]
            @ ''db.internal'' @ [CHR 0x22] @ '' in connection info string'' @ [CHR 0x0A])) []
   = (JObj [(''error'', JStr (''invalid dsn: missing '' @ [CHR 0x22] @ ''='' @ [CHR 0x22] @ '' after '' @ [CHR 0x22]
            @ ''db.internal'' @ [CHR 0x22] @ '' in connection info string'' @ [CHR 0x0A]))], 500)
   \<and> sublist ''db.internal''
        (''invalid dsn: missing '' @ [CHR 0x22] @ ''='' @ [CHR 0x22] @ '' after '' @ [CHR 0x22]
            @ ''db.internal'' @ [CHR 0x22] @ '' in connection info string'' @ [CHR 0x0A])"
proof
  show "get_history (Some ''db.internal'')
     (Some (''invalid dsn: missing '' @ [CHR 0x22] @ ''='' @ [CHR 0x22] @ '' after '' @ [CHR 0x22]
            @ ''db.internal'' @ [CHR 0x22] @ '' in connection info string'' @ [CHR 0x0A])) []
   = (JObj [(''error'', JStr (''invalid dsn: missing '' @ [CHR 0x22] @ ''='' @ [CHR 0x22] @ '' after '' @ [CHR 0x22]
            @ ''db.internal'' @ [CHR 0x22] @ '' in connection info string'' @ [CHR 0x0A]))], 500)"
    by (simp add: get_history_def)
  have "sublist ''db.internal''
        ((''invalid dsn: missing '' @ [CHR 0x22] @ ''='' @ [CHR 0x22] @ '' after '' @ [CHR 0x22])
            @ ''db.internal'' @ ([CHR 0x22] @ '' in connection info string'' @ [CHR 0x0A]))"
    by (rule sublist_appendI)
  then show "sublist ''db.internal''
        (''invalid dsn: missing '' @ [CHR 0x22] @ ''='' @ [CHR 0x22] @ '' after '' @ [CHR 0x22]
            @ ''db.internal'' @ [CHR 0x22] @ '' in connection info string'' @ [CHR 0x0A])"
    by (simp only: append_assoc)
qed

subsection \<open>All or nothing\<close>

text \<open>
  C9. A cycle commits once, at its end. When it prints an error, the store holds no row of
  this cycle: it is the store from before, followed only by rows that other writers
  committed meanwhile, and without other writers it is the store from before. When it
  prints no error, every item of the reply has its issue in the store.
\<close>

theorem fetch_job_all_or_nothing:
  "(ErrorInFetchJob e \<in> set (snd (fetch_job arr url up fault ws st)) \<longrightarrow>
      (\<exists>extra. fst (fetch_job arr url up fault ws st) = st @ extra \<and> set extra \<subseteq> \<Union> (set ` set ws)))
   \<and> (ErrorInFetchJob e \<in> set (snd (fetch_job arr url up fault [] st)) \<longrightarrow>
      fst (fetch_job arr url up fault [] st) = st)
   \<and> ((\<forall>x. ErrorInFetchJob x \<notin> set (snd (fetch_job arr url up fault ws st))) \<longrightarrow>
      (\<exists>data items. upstream_data up = Inr data \<and> py_iter data = Inr items
         \<and> (\<forall>it\<in>set items. \<exists>i c t. item_fields it = Inr (i, c, t)
                \<and> i \<in> issue ` set (fst (fetch_job arr url up fault ws st)))))"
proof -
  have gen: "\<exists>extra. fst (fetch_job arr url up fault ws' st) = st @ extra \<and> set extra \<subseteq> \<Union> (set ` set ws')"
    if "ErrorInFetchJob e \<in> set (snd (fetch_job arr url up fault ws' st))" for ws'
  proof (cases rule: fetch_job_cases [of arr url up fault ws' st])
    case (early e')
    then show ?thesis by simp
  next
    case (abort data items e' tx)
    from run_items_base_Inl [OF abort(4)] abort(5) show ?thesis by simp
  next
    case (commit data items tx n)
    with that show ?thesis by (simp split: if_splits)
  qed
  have all: "\<exists>data items. upstream_data up = Inr data \<and> py_iter data = Inr items
         \<and> (\<forall>it\<in>set items. \<exists>i c t. item_fields it = Inr (i, c, t)
                \<and> i \<in> issue ` set (fst (fetch_job arr url up fault ws st)))"
    if "\<forall>x. ErrorInFetchJob x \<notin> set (snd (fetch_job arr url up fault ws st))"
  proof (cases rule: fetch_job_cases [of arr url up fault ws st])
    case (early e')
    with that show ?thesis by simp
  next
    case (abort data items e' tx)
    with that show ?thesis by simp
  next
    case (commit data items tx n)
    from run_items_issues [OF commit(4)] have
      "\<forall>it\<in>set items. \<exists>i c t. item_fields it = Inr (i, c, t) \<and> i \<in> issue ` set (visible tx)"
      by blast
    with commit(1,3,5) show ?thesis by simp
  qed
  from gen [of ws] gen [of "[]"] all show ?thesis by auto
qed

text \<open>At a reply whose second item has no \<open>number\<close> (the first item alone would have been
  inserted), with and without another writer, and at a reply with the first item only.\<close>

theorem fetch_job_all_or_nothing_witness:
  "ErrorInFetchJob (KeyError ''number'')
      \<in> set (snd (fetch_job refuses_lists None (reply_with [item100, no_number]) None [[row101]] []))
   \<and> ErrorInFetchJob (KeyError ''number'')
      \<in> set (snd (fetch_job refuses_lists None (reply_with [item100, no_number]) None [] []))
   \<and> run_items refuses_lists None \<lparr>base = [], own = []\<rparr> 0 [item100] [] = Inr (\<lparr>base = [], own = [row100]\<rparr>, 1)
   \<and> fst (fetch_job refuses_lists None (reply_with [item100, no_number]) None [[row101]] []) = [row101]
   \<and> fst (fetch_job refuses_lists None (reply_with [item100, no_number]) None [] []) = []
   \<and> (\<forall>x. ErrorInFetchJob x \<notin> set (snd (fetch_job refuses_lists None (reply_with [item100]) None [] [])))
   \<and> fst (fetch_job refuses_lists None (reply_with [item100]) None [] []) = [row100]
   \<and> (\<exists>data items. upstream_data (reply_with [item100]) = Inr data \<and> py_iter data = Inr items
         \<and> (\<forall>it\<in>set items. \<exists>i c t. item_fields it = Inr (i, c, t)
                \<and> i \<in> issue ` set (fst (fetch_job refuses_lists None (reply_with [item100]) None [] []))))"
proof -
  have e1: "ErrorInFetchJob (KeyError ''number'')
      \<in> set (snd (fetch_job refuses_lists None (reply_with [item100, no_number]) None [[row101]] []))"
    by (simp add: cycle_defs)
  have e: "ErrorInFetchJob (KeyError ''number'')
      \<in> set (snd (fetch_job refuses_lists None (reply_with [item100, no_number]) None [] []))"
    by (simp add: cycle_defs)
  have r: "run_items refuses_lists None \<lparr>base = [], own = []\<rparr> 0 [item100] [] = Inr (\<lparr>base = [], own = [row100]\<rparr>, 1)"
    by (simp add: cycle_defs)
  have 0: "fst (fetch_job refuses_lists None (reply_with [item100, no_number]) None [[row101]] []) = [row101]"
    by (simp add: cycle_defs)
  from fetch_job_all_or_nothing [of "KeyError ''number''" refuses_lists None "reply_with [item100, no_number]" None "[]" "[]",
      THEN conjunct2, THEN conjunct1, rule_format, OF e]
  have 1: "fst (fetch_job refuses_lists None (reply_with [item100, no_number]) None [] []) = []" .
  have n: "\<forall>x. ErrorInFetchJob x \<notin> set (snd (fetch_job refuses_lists None (reply_with [item100]) None [] []))"
    by (simp add: cycle_defs)
  have 2: "fst (fetch_job refuses_lists None (reply_with [item100]) None [] []) = [row100]"
    by (simp add: cycle_defs)
  from fetch_job_all_or_nothing [of "KeyError ''number''" refuses_lists None "reply_with [item100]" None "[]" "[]",
      THEN conjunct2, THEN conjunct2, THEN mp, OF n]
  have 3: "\<exists>data items. upstream_data (reply_with [item100]) = Inr data \<and> py_iter data = Inr items
         \<and> (\<forall>it\<in>set items. \<exists>i c t. item_fields it = Inr (i, c, t)
                \<and> i \<in> issue ` set (fst (fetch_job refuses_lists None (reply_with [item100]) None [] [])))" .
  from e1 e r 0 1 n 2 3 show ?thesis by blast
qed

subsection \<open>The total count\<close>

text \<open>
  C10. In every answer with status 200, \<open>totalCount\<close> is the length of the list in the
  same answer, which is \<open>min 50 (length st)\<close>: at most 50, and less than the number of
  stored rows as soon as there are more than 50.
\<close>

theorem history_total_count:
  "\<exists>l. get_history url None st =
          (JObj [(''code'', JNum 0), (''msg'', JStr ''Success''),
                 (''data'', JObj [(''totalCount'', JNum (int (length l))), (''list'', JArr l)])],
           200)
      \<and> length l = min 50 (length st) \<and> length l \<le> 50"
  by (simp add: get_history_def select_recent_def)

end
